theory Spec2Isabelle
  imports Main
begin

section \<open>Values, context identifiers and callbacks\<close>

text \<open>
  A node of the document tree (an \<open>Element\<close>, a \<open>ShadowRoot\<close> or the \<open>Document\<close>) is
  referred to by a number. A context key is a string or a symbol; a symbol has an
  identity of its own and a description (its spelling). Values handed to a consumer are
  opaque apart from the one value the provider tests for, \<open>undefined\<close>.
\<close>

type_synonym node = nat

datatype Context = CString string | CSymbol nat string

datatype jsvalue = Undefined | Value nat

type_synonym jserror = string

text \<open>
  \<open>ContextCallback\<close>: the consumer's function. It is opaque to the provider; all the
  provider can observe is whether a call returns (\<open>None\<close>) or throws (\<open>Some e\<close>).
\<close>

datatype ContextCallback = Callback (cb_id: nat) (cb_throws: "jsvalue \<Rightarrow> jserror option")

section \<open>The two event classes\<close>

text \<open>
  \<open>Event\<close> is the host's class; of its state the constructor arguments used by the two
  subclasses are kept. The field \<open>ctx\<close> is the source's \<open>context\<close>, the fields \<open>p_ctx\<close>
  and \<open>p_contextTarget\<close> are \<open>context\<close> and \<open>contextTarget\<close> of the provider event.
\<close>

record Event =
  event_type :: string
  bubbles :: bool
  composed :: bool

record ContextRequestEvent = Event +
  ctx :: Context
  contextTarget :: node
  callback :: ContextCallback
  subscribe :: bool

record ContextProviderEvent = Event +
  p_ctx :: Context
  p_contextTarget :: node

text \<open>
  \<open>new ContextRequestEvent(context, contextTarget, callback, subscribe?)\<close>: the optional
  fourth argument is \<open>None\<close> when it is omitted or \<open>undefined\<close>;
  \<open>this.subscribe = subscribe ?? false\<close>.
\<close>

definition nullish_coalesce :: "'a option \<Rightarrow> 'a \<Rightarrow> 'a" where
  "nullish_coalesce x d = (case x of None \<Rightarrow> d | Some v \<Rightarrow> v)"

definition new_ContextRequestEvent ::
  "Context \<Rightarrow> node \<Rightarrow> ContextCallback \<Rightarrow> bool option \<Rightarrow> ContextRequestEvent" where
  "new_ContextRequestEvent c tgt cb sub =
     \<lparr>event_type = ''context-request'', bubbles = True, composed = True,
      ctx = c, contextTarget = tgt, callback = cb,
      subscribe = nullish_coalesce sub False\<rparr>"

definition new_ContextProviderEvent :: "Context \<Rightarrow> node \<Rightarrow> ContextProviderEvent" where
  "new_ContextProviderEvent c tgt =
     \<lparr>event_type = ''context-provider'', bubbles = True, composed = True,
      p_ctx = c, p_contextTarget = tgt\<rparr>"

section \<open>The module entry point\<close>


datatype console_line = Warn string | ConsoleError string jserror







section \<open>The listener of a registered provider\<close>

text \<open>
  \<open>handlerOrValue\<close> is a static value or a handler function; the source tells them
  apart with \<open>typeof handlerOrValue === 'function'\<close>. A handler call returns a plain
  value, throws, or returns a promise that is fulfilled, is rejected or never settles.
\<close>

datatype handler_result =
  Returns jsvalue | Throws jserror | Resolves jsvalue | Rejects jserror | Pending

datatype provided =
  Static jsvalue | Handler "ContextRequestEvent \<Rightarrow> handler_result"

text \<open>What a listener does that others can observe.\<close>

datatype action =
  StopImmediatePropagation
| InvokeHandler
| InvokeCallback ContextCallback jsvalue
| Log console_line

text \<open>
  The body of the \<open>try\<close> block. The listener is an \<open>async\<close> function: it runs inside the
  dispatch until its first \<open>await\<close>, and the rest runs later, once the awaited value has
  settled. \<open>t_before\<close> holds the actions before the \<open>await\<close>, \<open>t_after\<close> those after it,
  \<open>t_awaited\<close> says whether the \<open>await\<close> was reached, and \<open>t_completion\<close> how the block
  ended.
\<close>

datatype completion = Normal | Thrown jserror | Suspended

record try_run =
  t_before :: "action list"
  t_after :: "action list"
  t_awaited :: bool
  t_completion :: completion

text \<open>\<open>if (value !== undefined) { contextEvent.callback(value) }\<close>\<close>

definition deliver :: "ContextRequestEvent \<Rightarrow> jsvalue \<Rightarrow> action list \<times> completion" where
  "deliver ev v =
     (if v \<noteq> Undefined
      then ([InvokeCallback (callback ev) v],
            (case cb_throws (callback ev) v of None \<Rightarrow> Normal | Some e \<Rightarrow> Thrown e))
      else ([], Normal))"

definition try_block :: "provided \<Rightarrow> ContextRequestEvent \<Rightarrow> try_run" where
  "try_block hv ev =
     (case hv of
        Static v \<Rightarrow>
          \<lparr>t_before = fst (deliver ev v), t_after = [], t_awaited = False,
           t_completion = snd (deliver ev v)\<rparr>
      | Handler h \<Rightarrow>
          (case h ev of
             Throws e \<Rightarrow>
               \<lparr>t_before = [InvokeHandler], t_after = [], t_awaited = False,
                t_completion = Thrown e\<rparr>
           | Returns v \<Rightarrow>
               \<lparr>t_before = [InvokeHandler], t_after = fst (deliver ev v), t_awaited = True,
                t_completion = snd (deliver ev v)\<rparr>
           | Resolves v \<Rightarrow>
               \<lparr>t_before = [InvokeHandler], t_after = fst (deliver ev v), t_awaited = True,
                t_completion = snd (deliver ev v)\<rparr>
           | Rejects e \<Rightarrow>
               \<lparr>t_before = [InvokeHandler], t_after = [], t_awaited = True,
                t_completion = Thrown e\<rparr>
           | Pending \<Rightarrow>
               \<lparr>t_before = [InvokeHandler], t_after = [], t_awaited = True,
                t_completion = Suspended\<rparr>))"

text \<open>\<open>String(context)\<close> and the first argument of \<open>console.error\<close> in the \<open>catch\<close> block.\<close>

definition String_of :: "Context \<Rightarrow> string" where
  "String_of c = (case c of CString s \<Rightarrow> s | CSymbol _ d \<Rightarrow> ''Symbol('' @ d @ '')'')"

definition error_message :: "Context \<Rightarrow> string" where
  "error_message c =
     ''Context provider error for '' @ [CHR 0x22] @ String_of c @ [CHR 0x22] @ '':''"

text \<open>
  One run of \<open>contextListener\<close>: \<open>immediate\<close> is what happens inside the dispatch of the
  event, \<open>deferred\<close> what happens after the \<open>await\<close>, and \<open>outcome\<close> is the fate of the
  promise the \<open>async\<close> function returns (a rejection would be an error nobody caught).
\<close>

datatype promise_state = Fulfilled | Rejected jserror | NeverSettled

record listener_run =
  immediate :: "action list"
  deferred :: "action list"
  outcome :: promise_state

definition contextListener ::
  "Context \<Rightarrow> provided \<Rightarrow> bool \<Rightarrow> ContextRequestEvent \<Rightarrow> listener_run" where
  "contextListener c hv stopPropagation ev =
     (if ctx ev \<noteq> c then \<lparr>immediate = [], deferred = [], outcome = Fulfilled\<rparr>
      else
        let stop = (if stopPropagation then [StopImmediatePropagation] else []);
            t = try_block hv ev
        in (case t_completion t of
              Normal \<Rightarrow>
                \<lparr>immediate = stop @ t_before t, deferred = t_after t, outcome = Fulfilled\<rparr>
            | Suspended \<Rightarrow>
                \<lparr>immediate = stop @ t_before t, deferred = t_after t, outcome = NeverSettled\<rparr>
            | Thrown e \<Rightarrow>
                (if t_awaited t
                 then \<lparr>immediate = stop @ t_before t,
                       deferred = t_after t @ [Log (ConsoleError (error_message c) e)],
                       outcome = Fulfilled\<rparr>
                 else \<lparr>immediate = stop @ t_before t @ [Log (ConsoleError (error_message c) e)],
                       deferred = t_after t,
                       outcome = Fulfilled\<rparr>)))"

section \<open>Registering a provider\<close>

text \<open>
  \<open>ProviderOptions extends AddEventListenerOptions\<close>. An absent property is \<open>None\<close>. Of an
  \<open>AbortSignal\<close> the host reads one thing when a listener is added: whether it has
  aborted already.
\<close>

datatype AbortSignal = AbortSignal (aborted: bool)

record AddEventListenerOptions =
  capture :: "bool option"
  once :: "bool option"
  passive' :: "bool option"
  signal :: "AbortSignal option"

record ProviderOptions = AddEventListenerOptions +
  target :: "node option"
  stopPropagation :: "bool option"

text \<open>
  The listeners that exist in the modelled system: the closure \<open>contextListener\<close> that a
  call of \<open>registerContextProvider\<close> creates, given by its captured variables (two
  closures with the same captured variables act alike, and the model identifies them),
  and the two handlers of the resolution buffer (modelled from the spec, below).
\<close>

datatype listener =
  ContextListener Context provided bool
| RootOnRequest
| RootOnProvider

datatype dom_event = Request ContextRequestEvent | Provider ContextProviderEvent

datatype dom_call =
  AddEventListener node string listener AddEventListenerOptions
| DispatchEvent node dom_event
| RemoveEventListener node string listener

text \<open>
  The tree of the host. Every node has at most one link upwards: to its parent node, or,
  for a shadow root, to its host element. Nodes are numbered so that a link leads to a
  smaller number (every finite forest can be numbered so); a link that does not is not
  followed, which makes both walks total.
\<close>

datatype link = Top | ChildOf node | ShadowOf node

function getRootNode :: "(node \<Rightarrow> link) \<Rightarrow> node \<Rightarrow> node" where
  "getRootNode lk n =
     (case lk n of
        ChildOf p \<Rightarrow> (if p < n then getRootNode lk p else n)
      | ShadowOf h \<Rightarrow> n
      | Top \<Rightarrow> n)"
  by pat_completeness auto
termination
  by (relation "measure snd") auto

declare getRootNode.simps [simp del]

text \<open>
  The propagation path of an event dispatched at a node, the node itself first. A shadow
  root is left towards its host by a composed event only.
\<close>

function event_path :: "(node \<Rightarrow> link) \<Rightarrow> bool \<Rightarrow> node \<Rightarrow> node list" where
  "event_path lk cmpd n =
     n # (case lk n of
            ChildOf p \<Rightarrow> (if p < n then event_path lk cmpd p else [])
          | ShadowOf h \<Rightarrow> (if cmpd \<and> h < n then event_path lk cmpd h else [])
          | Top \<Rightarrow> [])"
  by pat_completeness auto
termination
  by (relation "measure (\<lambda>(lk, cmpd, n). n)") auto

declare event_path.simps [simp del]

text \<open>A registered listener as the host keeps it.\<close>

record registration =
  r_node :: node
  r_type :: string
  r_listener :: listener
  r_capture :: bool
  r_once :: bool

text \<open>
  Modelled from the spec: the \<open>RequestRecord\<close> of the resolution buffer (\<open>ContextRoot\<close>),
  whose source file is not among the files given: the persisted form of an unanswered
  request signal, \<open>{ context, originNode, deliver, subscribe }\<close>.
\<close>

record RequestRecord =
  rr_context :: Context
  originNode :: node
  rr_deliver :: ContextCallback
  rr_subscribe :: bool

text \<open>
  The state of the whole: the tree, \<open>document.body\<close>, the listeners in the order they
  were added, and the pending records of the resolution buffer in the order they arrived
  (the buffer being modelled from the spec).
\<close>

record world =
  links :: "node \<Rightarrow> link"
  document_body :: node
  registrations :: "registration list"
  pending :: "RequestRecord list"

text \<open>
  \<open>registerContextProvider(context, handlerOrValue, options)\<close>: the calls it makes on the
  host, in order, and the calls its returned cleanup function makes. The rest of the
  destructured \<open>options\<close> (all but \<open>target\<close> and \<open>stopPropagation\<close>) goes to
  \<open>addEventListener\<close>. \<open>getRootNode()\<close> always yields a node, so the alternative
  \<open>document?.body\<close> is never taken.
\<close>

definition registerContextProvider ::
  "world \<Rightarrow> Context \<Rightarrow> provided \<Rightarrow> ProviderOptions \<Rightarrow> dom_call list \<times> dom_call list" where
  "registerContextProvider w c handlerOrValue options =
     (let tgt = nullish_coalesce (target options) (document_body w);
          stopProp = nullish_coalesce (stopPropagation options) True;
          addEventListenerOptions = AddEventListenerOptions.truncate options;
          l = ContextListener c handlerOrValue stopProp;
          listenerTarget = getRootNode (links w) tgt
      in ([AddEventListener listenerTarget ''context-request'' l addEventListenerOptions,
           DispatchEvent tgt (Provider (new_ContextProviderEvent c tgt))],
          [RemoveEventListener listenerTarget ''context-request'' l]))"

section \<open>The host: listeners and dispatch\<close>

text \<open>
  What the host's \<open>EventTarget\<close> does with the calls above. \<open>addEventListener\<close> adds
  nothing when the signal has aborted already; a flag that is absent is false. Every
  call of \<open>registerContextProvider\<close> creates a new closure, so the host's test for a
  listener that is registered already never applies to it. \<open>removeEventListener\<close>
  without options removes a listener of the bubbling phase.
\<close>

definition flag :: "bool option \<Rightarrow> bool" where
  "flag b = nullish_coalesce b False"

definition signal_aborted :: "'a AddEventListenerOptions_scheme \<Rightarrow> bool" where
  "signal_aborted opts = (case signal opts of None \<Rightarrow> False | Some s \<Rightarrow> aborted s)"

definition addEventListener ::
  "node \<Rightarrow> string \<Rightarrow> listener \<Rightarrow> AddEventListenerOptions \<Rightarrow> world \<Rightarrow> world" where
  "addEventListener n ty l opts w =
     (if signal_aborted opts then w
      else w\<lparr>registrations := registrations w @
               [\<lparr>r_node = n, r_type = ty, r_listener = l,
                 r_capture = flag (capture opts), r_once = flag (once opts)\<rparr>]\<rparr>)"

fun remove_first :: "('a \<Rightarrow> bool) \<Rightarrow> 'a list \<Rightarrow> 'a list" where
  "remove_first P [] = []"
| "remove_first P (x # xs) = (if P x then xs else x # remove_first P xs)"

definition removeEventListener :: "node \<Rightarrow> string \<Rightarrow> listener \<Rightarrow> world \<Rightarrow> world" where
  "removeEventListener n ty l w =
     w\<lparr>registrations :=
         remove_first (\<lambda>r. r_node r = n \<and> r_type r = ty \<and> r_listener r = l \<and> \<not> r_capture r)
           (registrations w)\<rparr>"

text \<open>
  The listeners an event reaches, in the order the host invokes them: the capturing
  listeners from the top of the path down to the target, then the others from the target
  upwards (on the target alone when the event does not bubble); on one node, in the order
  they were added.
\<close>

definition listeners_at :: "world \<Rightarrow> string \<Rightarrow> bool \<Rightarrow> node \<Rightarrow> registration list" where
  "listeners_at w ty cap n =
     filter (\<lambda>r. r_node r = n \<and> r_type r = ty \<and> r_capture r = cap) (registrations w)"

definition invocation_order :: "world \<Rightarrow> 'a Event_scheme \<Rightarrow> node \<Rightarrow> registration list" where
  "invocation_order w ev tgt =
     (let path = event_path (links w) (composed ev) tgt
      in concat (map (listeners_at w (event_type ev) True) (rev path)) @
         concat (map (listeners_at w (event_type ev) False)
                   (if bubbles ev then path else [tgt])))"

text \<open>
  The state of a dispatch: the world, what has happened inside the dispatch so far, what
  has been put off until some awaited value settles, and the event's
  stop-immediate-propagation flag.
\<close>

record dispatch =
  d_world :: world
  d_now :: "action list"
  d_later :: "action list"
  d_stopped :: bool

definition start :: "world \<Rightarrow> dispatch" where
  "start w = \<lparr>d_world = w, d_now = [], d_later = [], d_stopped = False\<rparr>"

definition drop_if_once :: "registration \<Rightarrow> world \<Rightarrow> world" where
  "drop_if_once r w =
     (if r_once r then w\<lparr>registrations := remove1 r (registrations w)\<rparr> else w)"

text \<open>
  Modelled from the spec: the resolution buffer (\<open>ContextRoot\<close>), whose source file is not
  among the files given. The record of a request signal takes the signal's four fields.
\<close>

definition record_of :: "ContextRequestEvent \<Rightarrow> RequestRecord" where
  "record_of ev =
     \<lparr>rr_context = ctx ev, originNode = contextTarget ev, rr_deliver = callback ev,
      rr_subscribe = subscribe ev\<rparr>"

text \<open>
  Modelled from the spec: the resolution buffer on a request signal that reaches an
  attached root. It stores a record for later replay, neither calling \<open>deliver\<close> nor
  stopping propagation.
\<close>

definition onContextRequest :: "ContextRequestEvent \<Rightarrow> world \<Rightarrow> world" where
  "onContextRequest ev w = w\<lparr>pending := pending w @ [record_of ev]\<rparr>"

text \<open>
  Modelled from the spec: a listener of the resolution buffer as \<open>attach\<close> registers it, on
  the root node, for one of the two signal kinds.
\<close>

definition root_registration :: "node \<Rightarrow> string \<Rightarrow> listener \<Rightarrow> registration" where
  "root_registration n ty l =
     \<lparr>r_node = n, r_type = ty, r_listener = l, r_capture = False, r_once = False\<rparr>"

text \<open>
  Modelled from the spec: the resolution buffer is attached to a node when its listeners
  for both signal kinds are registered there.
\<close>

definition attached :: "node \<Rightarrow> world \<Rightarrow> bool" where
  "attached n w =
     (root_registration n ''context-request'' RootOnRequest \<in> set (registrations w) \<and>
      root_registration n ''context-provider'' RootOnProvider \<in> set (registrations w))"

text \<open>
  Modelled from the spec: \<open>attach(rootNode)\<close> of the resolution buffer. It subscribes to
  both signal kinds on the node, and attaching the same node twice registers nothing
  anew.
\<close>

definition attach :: "node \<Rightarrow> world \<Rightarrow> world" where
  "attach n w =
     (if attached n w then w
      else w\<lparr>registrations := registrations w @
               [root_registration n ''context-request'' RootOnRequest,
                root_registration n ''context-provider'' RootOnProvider]\<rparr>)"

text \<open>One listener receives a request event; then the whole dispatch of a request.\<close>

definition quiet :: listener_run where
  "quiet = \<lparr>immediate = [], deferred = [], outcome = Fulfilled\<rparr>"

definition invoke_request :: "listener \<Rightarrow> ContextRequestEvent \<Rightarrow> world \<Rightarrow> listener_run \<times> world" where
  "invoke_request l ev w =
     (case l of
        ContextListener c hv sp \<Rightarrow> (contextListener c hv sp ev, w)
      | RootOnRequest \<Rightarrow> (quiet, onContextRequest ev w)
      | RootOnProvider \<Rightarrow> (quiet, w))"

definition request_step :: "registration \<Rightarrow> ContextRequestEvent \<Rightarrow> dispatch \<Rightarrow> dispatch" where
  "request_step r ev s =
     (let res = invoke_request (r_listener r) ev (drop_if_once r (d_world s))
      in \<lparr>d_world = snd res,
          d_now = d_now s @ immediate (fst res),
          d_later = d_later s @ deferred (fst res),
          d_stopped = (d_stopped s \<or> StopImmediatePropagation \<in> set (immediate (fst res)))\<rparr>)"

fun run_request_listeners ::
  "registration list \<Rightarrow> ContextRequestEvent \<Rightarrow> dispatch \<Rightarrow> dispatch" where
  "run_request_listeners [] ev s = s"
| "run_request_listeners (r # rs) ev s =
     (if d_stopped s then s else run_request_listeners rs ev (request_step r ev s))"

definition dispatch_request :: "node \<Rightarrow> ContextRequestEvent \<Rightarrow> world \<Rightarrow> dispatch" where
  "dispatch_request tgt ev w = run_request_listeners (invocation_order w ev tgt) ev (start w)"

text \<open>
  Modelled from the spec: the replay of one record of the resolution buffer. A fresh
  request signal, a new instance with the record's \<open>context\<close>, \<open>originNode\<close>, \<open>deliver\<close> and
  \<open>subscribe\<close>, is dispatched at the announcing node.
\<close>

definition fresh_request :: "RequestRecord \<Rightarrow> ContextRequestEvent" where
  "fresh_request rc =
     new_ContextRequestEvent (rr_context rc) (originNode rc) (rr_deliver rc)
       (Some (rr_subscribe rc))"

text \<open>
  Modelled from the spec: what the resolution buffer does with a record after its replay.
  A record whose replay was stopped from propagating, that is, was satisfied by the
  provider, is removed when it does not subscribe and kept when it does; a record whose
  replay was not satisfied stays for the next announcement.
\<close>

definition settle_record :: "RequestRecord \<Rightarrow> dispatch \<Rightarrow> world" where
  "settle_record rc d =
     (if d_stopped d \<and> \<not> rr_subscribe rc
      then (d_world d)\<lparr>pending := remove1 rc (pending (d_world d))\<rparr>
      else d_world d)"

text \<open>
  Modelled from the spec: one record replayed by the resolution buffer: the fresh request
  signal is dispatched at the announcing node, and then the record is removed or kept.
\<close>

definition replay_step :: "node \<Rightarrow> RequestRecord \<Rightarrow> dispatch \<Rightarrow> dispatch" where
  "replay_step at rc s =
     (let d = dispatch_request at (fresh_request rc) (d_world s)
      in \<lparr>d_world = settle_record rc d,
          d_now = d_now s @ d_now d,
          d_later = d_later s @ d_later d,
          d_stopped = d_stopped s\<rparr>)"

text \<open>
  Modelled from the spec: the replay pass of the resolution buffer over the records that
  matched when the announcement arrived, first come, first replayed.
\<close>

fun replay :: "node \<Rightarrow> RequestRecord list \<Rightarrow> dispatch \<Rightarrow> dispatch" where
  "replay at [] s = s"
| "replay at (rc # rcs) s = replay at rcs (replay_step at rc s)"

text \<open>
  Modelled from the spec: the resolution buffer on an announcement for a context. The
  pending records of that context, as they stand when the announcement arrives, are
  replayed in the order of their arrival.
\<close>

definition onContextProvider :: "ContextProviderEvent \<Rightarrow> dispatch \<Rightarrow> dispatch" where
  "onContextProvider pev s =
     replay (p_contextTarget pev)
       (filter (\<lambda>rc. rr_context rc = p_ctx pev) (pending (d_world s))) s"

text \<open>
  The dispatch of an announcement. Of the listeners of the system only the buffer's
  reacts to one; a listener of another kind, had it been added for this event type, finds
  nothing of its own in the event.
\<close>

definition provider_step :: "registration \<Rightarrow> ContextProviderEvent \<Rightarrow> dispatch \<Rightarrow> dispatch" where
  "provider_step r pev s =
     (let s' = s\<lparr>d_world := drop_if_once r (d_world s)\<rparr>
      in (case r_listener r of
            RootOnProvider \<Rightarrow> onContextProvider pev s'
          | RootOnRequest \<Rightarrow> s'
          | ContextListener c hv sp \<Rightarrow> s'))"

fun run_provider_listeners ::
  "registration list \<Rightarrow> ContextProviderEvent \<Rightarrow> dispatch \<Rightarrow> dispatch" where
  "run_provider_listeners [] pev s = s"
| "run_provider_listeners (r # rs) pev s =
     (if d_stopped s then s else run_provider_listeners rs pev (provider_step r pev s))"

definition dispatch_provider :: "node \<Rightarrow> ContextProviderEvent \<Rightarrow> world \<Rightarrow> dispatch" where
  "dispatch_provider tgt pev w = run_provider_listeners (invocation_order w pev tgt) pev (start w)"

text \<open>Running calls on the host one after the other, collecting what happens.\<close>

definition dispatchEvent :: "node \<Rightarrow> dom_event \<Rightarrow> world \<Rightarrow> dispatch" where
  "dispatchEvent tgt e w =
     (case e of Request ev \<Rightarrow> dispatch_request tgt ev w
              | Provider pev \<Rightarrow> dispatch_provider tgt pev w)"

definition exec :: "dom_call \<Rightarrow> dispatch \<Rightarrow> dispatch" where
  "exec call s =
     (case call of
        AddEventListener n ty l opts \<Rightarrow> s\<lparr>d_world := addEventListener n ty l opts (d_world s)\<rparr>
      | RemoveEventListener n ty l \<Rightarrow> s\<lparr>d_world := removeEventListener n ty l (d_world s)\<rparr>
      | DispatchEvent tgt e \<Rightarrow>
          (let d = dispatchEvent tgt e (d_world s)
           in \<lparr>d_world = d_world d, d_now = d_now s @ d_now d,
               d_later = d_later s @ d_later d, d_stopped = False\<rparr>))"

fun run_calls :: "dom_call list \<Rightarrow> dispatch \<Rightarrow> dispatch" where
  "run_calls [] s = s"
| "run_calls (call # calls) s = run_calls calls (exec call s)"

definition register :: "Context \<Rightarrow> provided \<Rightarrow> ProviderOptions \<Rightarrow> world \<Rightarrow> dispatch" where
  "register c hv options w = run_calls (fst (registerContextProvider w c hv options)) (start w)"

section \<open>Reading a run\<close>

text \<open>
  The callback invocations among some actions, in order; the announcements among some
  calls on the host; and whether a provider, asked by a given request, comes up with a
  given value.
\<close>

definition callbacks :: "action list \<Rightarrow> (ContextCallback \<times> jsvalue) list" where
  "callbacks as =
     concat (map (\<lambda>a. case a of InvokeCallback cb v \<Rightarrow> [(cb, v)] | _ \<Rightarrow> []) as)"

definition stops :: "action list \<Rightarrow> bool" where
  "stops as = (StopImmediatePropagation \<in> set as)"

definition logged :: "action list \<Rightarrow> console_line list" where
  "logged as = concat (map (\<lambda>a. case a of Log l \<Rightarrow> [l] | _ \<Rightarrow> []) as)"

definition provider_dispatches :: "dom_call list \<Rightarrow> (node \<times> ContextProviderEvent) list" where
  "provider_dispatches calls =
     concat (map (\<lambda>call. case call of DispatchEvent n (Provider pev) \<Rightarrow> [(n, pev)] | _ \<Rightarrow> [])
               calls)"

definition provides :: "provided \<Rightarrow> ContextRequestEvent \<Rightarrow> jsvalue \<Rightarrow> bool" where
  "provides hv ev v =
     (case hv of Static v' \<Rightarrow> v' = v
               | Handler h \<Rightarrow> h ev = Resolves v \<or> h ev = Returns v)"

text \<open>
  No provider of a context is among some registered listeners; and: the providers of a
  context among them are all one and the same closure.
\<close>

definition no_provider :: "Context \<Rightarrow> registration list \<Rightarrow> bool" where
  "no_provider c rs =
     list_all (\<lambda>r. case r_listener r of ContextListener c' hv sp \<Rightarrow> c' \<noteq> c | _ \<Rightarrow> True) rs"

definition only_provider :: "listener \<Rightarrow> Context \<Rightarrow> registration list \<Rightarrow> bool" where
  "only_provider l c rs =
     list_all (\<lambda>r. case r_listener r of
                      ContextListener c' hv sp \<Rightarrow> c' = c \<longrightarrow> r_listener r = l
                    | _ \<Rightarrow> True) rs"

text \<open>
  A later world keeps the tree of an earlier one and every listener that is not a
  once-listener, and has no listener the earlier one did not have. A provider's listener
  is installed in a world when it is registered there for good and is the only provider
  of its context.
\<close>

definition keeps :: "world \<Rightarrow> world \<Rightarrow> bool" where
  "keeps w w' \<longleftrightarrow>
     links w' = links w \<and> document_body w' = document_body w \<and>
     set (registrations w') \<subseteq> set (registrations w) \<and>
     (\<forall>x \<in> set (registrations w). \<not> r_once x \<longrightarrow> x \<in> set (registrations w'))"

definition installed :: "registration \<Rightarrow> Context \<Rightarrow> provided \<Rightarrow> bool \<Rightarrow> world \<Rightarrow> bool" where
  "installed p c hv sp w \<longleftrightarrow>
     p \<in> set (registrations w) \<and> \<not> r_once p \<and> r_type p = ''context-request'' \<and>
     r_listener p = ContextListener c hv sp \<and>
     only_provider (ContextListener c hv sp) c (registrations w)"

section \<open>A small page, for concrete runs\<close>

text \<open>
  The document (0), its body (1), two sibling elements under the body (2 and 3), a
  shadow root on element 3 (4) and an element inside that shadow tree (5).
\<close>

definition page_links :: "node \<Rightarrow> link" where
  "page_links n =
     (if n = 1 then ChildOf 0 else if n = 2 then ChildOf 1 else if n = 3 then ChildOf 1
      else if n = 4 then ShadowOf 3 else if n = 5 then ChildOf 4 else Top)"

definition page :: world where
  "page = \<lparr>links = page_links, document_body = 1, registrations = [], pending = []\<rparr>"

definition theme :: Context where
  "theme = CString ''theme''"

definition consumer :: ContextCallback where
  "consumer = Callback 7 (\<lambda>v. None)"

definition no_options :: ProviderOptions where
  "no_options =
     \<lparr>capture = None, once = None, passive' = None, signal = None,
      target = None, stopPropagation = None\<rparr>"

definition no_answer :: "ContextRequestEvent \<Rightarrow> handler_result" where
  "no_answer ev = Resolves Undefined"

definition failing :: "ContextRequestEvent \<Rightarrow> handler_result" where
  "failing ev = Rejects ''boom''"

definition throwing :: "ContextRequestEvent \<Rightarrow> handler_result" where
  "throwing ev = Throws ''boom''"

definition fetching :: "ContextRequestEvent \<Rightarrow> handler_result" where
  "fetching ev = Resolves (Value 42)"

definition in_shadow :: ProviderOptions where
  "in_shadow = no_options\<lparr>target := Some 5\<rparr>"

definition on_element :: ProviderOptions where
  "on_element = no_options\<lparr>target := Some 2\<rparr>"


text \<open>
  The same two providers, the one inside the shadow tree registered with
  \<open>stopPropagation: false\<close>.
\<close>

definition open_in_shadow :: ProviderOptions where
  "open_in_shadow = in_shadow\<lparr>stopPropagation := Some False\<rparr>"




text \<open>
  Options with a signal that has aborted already, and options of a once-listener. The
  page with the resolution buffer attached to the body, after one subscribing request
  from element 3, and after a second one, of another consumer, from element 2; the page
  without the buffer after the first request; and the page with the buffer after the
  first request and the registration of a once-listener.
\<close>

definition aborted_options :: ProviderOptions where
  "aborted_options = no_options\<lparr>signal := Some (AbortSignal True)\<rparr>"

definition once_options :: ProviderOptions where
  "once_options = no_options\<lparr>once := Some True\<rparr>"

definition consumer2 :: ContextCallback where
  "consumer2 = Callback 8 (\<lambda>v. None)"

definition waiting :: world where
  "waiting =
     d_world (dispatch_request 3 (new_ContextRequestEvent theme 3 consumer (Some True))
                (attach 1 page))"

definition unattended :: world where
  "unattended =
     d_world (dispatch_request 3 (new_ContextRequestEvent theme 3 consumer (Some True)) page)"

definition waiting_two :: world where
  "waiting_two =
     d_world (dispatch_request 2 (new_ContextRequestEvent theme 2 consumer2 (Some True))
                waiting)"


lemmas event_defs =
  new_ContextRequestEvent_def new_ContextProviderEvent_def nullish_coalesce_def

lemmas listener_defs =
  contextListener_def try_block_def deliver_def Let_def

lemmas host_defs =
  registerContextProvider_def register_def exec_def addEventListener_def
  removeEventListener_def signal_aborted_def flag_def dispatchEvent_def
  dispatch_request_def dispatch_provider_def invocation_order_def listeners_at_def
  start_def drop_if_once_def request_step_def invoke_request_def quiet_def
  provider_step_def onContextProvider_def replay_step_def settle_record_def
  fresh_request_def record_of_def onContextRequest_def attach_def attached_def
  root_registration_def AddEventListenerOptions.truncate_def
  getRootNode.simps event_path.simps

lemmas page_defs =
  page_def page_links_def theme_def consumer_def no_options_def in_shadow_def
  on_element_def no_answer_def failing_def throwing_def fetching_def open_in_shadow_def
  aborted_options_def once_options_def consumer2_def

lemmas reading_defs = callbacks_def stops_def logged_def provider_dispatches_def provides_def

section \<open>Properties of the host model\<close>

subsection \<open>Paths\<close>

lemma event_path_self: "n \<in> set (event_path lk cm n)"
  by (subst event_path.simps) simp

lemma getRootNode_on_path: "getRootNode lk n \<in> set (event_path lk cm n)"
proof (induction lk n rule: getRootNode.induct)
  case (1 lk n)
  show ?case
  proof (cases "lk n")
    case Top
    then show ?thesis by (simp add: getRootNode.simps [of lk n] event_path_self)
  next
    case (ChildOf p)
    show ?thesis
    proof (cases "p < n")
      case True
      with ChildOf 1 have "getRootNode lk p \<in> set (event_path lk cm p)" by simp
      with ChildOf True show ?thesis
        by (simp add: getRootNode.simps [of lk n] event_path.simps [of lk cm n])
    next
      case False
      with ChildOf show ?thesis by (simp add: getRootNode.simps [of lk n] event_path_self)
    qed
  next
    case (ShadowOf h)
    then show ?thesis by (simp add: getRootNode.simps [of lk n] event_path_self)
  qed
qed



subsection \<open>Invocation order\<close>

lemma invocation_order_subset: "set (invocation_order w ev tgt) \<subseteq> set (registrations w)"
  by (auto simp: invocation_order_def listeners_at_def Let_def)

lemma invocation_order_member:
  assumes "r \<in> set (registrations w)" and "r_type r = event_type ev"
    and "r_node r \<in> set (event_path (links w) (composed ev) tgt)" and "bubbles ev"
  shows "r \<in> set (invocation_order w ev tgt)"
  using assms by (cases "r_capture r") (auto simp: invocation_order_def listeners_at_def Let_def)


subsection \<open>What a dispatch leaves of the world\<close>

lemma keeps_refl: "keeps w w"
  by (simp add: keeps_def)

lemma keeps_trans: "keeps w w' \<Longrightarrow> keeps w' w'' \<Longrightarrow> keeps w w''"
  by (auto simp: keeps_def)

lemma keeps_drop_if_once: "keeps w (drop_if_once r w)"
proof (cases "r_once r")
  case True
  have "x \<in> set (remove1 r (registrations w))"
    if "x \<in> set (registrations w)" and "\<not> r_once x" for x
  proof -
    from that True have "x \<noteq> r" by auto
    with that show ?thesis by simp
  qed
  moreover have "set (remove1 r (registrations w)) \<subseteq> set (registrations w)"
    by (rule set_remove1_subset)
  ultimately show ?thesis using True by (auto simp: keeps_def drop_if_once_def)
next
  case False
  then show ?thesis by (simp add: keeps_def drop_if_once_def)
qed

lemma pending_drop_if_once [simp]: "pending (drop_if_once r w) = pending w"
  by (simp add: drop_if_once_def)

lemma keeps_invoke_request: "keeps w (snd (invoke_request l ev w))"
  by (cases l) (simp_all add: invoke_request_def onContextRequest_def keeps_def)

lemma keeps_request_step: "keeps (d_world s) (d_world (request_step r ev s))"
  using keeps_trans [OF keeps_drop_if_once keeps_invoke_request]
  by (simp add: request_step_def Let_def)

lemma keeps_run_request_listeners:
  "keeps (d_world s) (d_world (run_request_listeners rs ev s))"
proof (induction rs arbitrary: s)
  case Nil
  show ?case by (simp add: keeps_refl)
next
  case (Cons r rs)
  show ?case
  proof (cases "d_stopped s")
    case True
    then show ?thesis by (simp add: keeps_refl)
  next
    case False
    with Cons [of "request_step r ev s"] keeps_request_step [of s r ev]
    show ?thesis by (auto intro: keeps_trans)
  qed
qed

lemma keeps_dispatch_request: "keeps w (d_world (dispatch_request tgt ev w))"
  using keeps_run_request_listeners [of "start w"]
  by (simp add: dispatch_request_def start_def)

lemma keeps_settle_record: "keeps (d_world d) (settle_record rc d)"
  by (simp add: settle_record_def keeps_def)

lemma keeps_replay_step: "keeps (d_world s) (d_world (replay_step at rc s))"
  using keeps_trans [OF keeps_dispatch_request keeps_settle_record]
  by (simp add: replay_step_def Let_def)


subsection \<open>Actions only accumulate\<close>

lemma request_step_now: "set (d_now s) \<subseteq> set (d_now (request_step r ev s))"
  and request_step_later: "set (d_later s) \<subseteq> set (d_later (request_step r ev s))"
  by (simp_all add: request_step_def Let_def)

lemma run_request_listeners_mono:
  "set (d_now s) \<subseteq> set (d_now (run_request_listeners rs ev s)) \<and>
   set (d_later s) \<subseteq> set (d_later (run_request_listeners rs ev s))"
proof (induction rs arbitrary: s)
  case Nil
  show ?case by simp
next
  case (Cons r rs)
  show ?case
  proof (cases "d_stopped s")
    case True
    then show ?thesis by simp
  next
    case False
    with Cons [of "request_step r ev s"] request_step_now [of s r ev]
      request_step_later [of s r ev]
    show ?thesis by auto
  qed
qed



lemma replay_step_mono:
  "set (d_now s) \<subseteq> set (d_now (replay_step at rc s)) \<and>
   set (d_later s) \<subseteq> set (d_later (replay_step at rc s))"
  by (simp add: replay_step_def Let_def)

lemma replay_mono:
  "set (d_now s) \<subseteq> set (d_now (replay at rcs s)) \<and>
   set (d_later s) \<subseteq> set (d_later (replay at rcs s))"
proof (induction rcs arbitrary: s)
  case Nil
  show ?case by simp
next
  case (Cons rc rcs)
  from Cons [of "replay_step at rc s"] replay_step_mono [of s at rc]
  show ?case by auto
qed

lemma replay_stopped [simp]: "d_stopped (replay at rcs s) = d_stopped s"
  by (induction rcs arbitrary: s) (simp_all add: replay_step_def Let_def)

lemma provider_step_stopped [simp]: "d_stopped (provider_step r pev s) = d_stopped s"
  by (cases "r_listener r") (simp_all add: provider_step_def onContextProvider_def Let_def)

lemma provider_step_mono:
  "set (d_now s) \<subseteq> set (d_now (provider_step r pev s)) \<and>
   set (d_later s) \<subseteq> set (d_later (provider_step r pev s))"
proof (cases "r_listener r")
  case RootOnProvider
  then show ?thesis
    using replay_mono [of "s\<lparr>d_world := drop_if_once r (d_world s)\<rparr>"]
    by (simp add: provider_step_def onContextProvider_def Let_def)
qed (simp_all add: provider_step_def Let_def)

lemma run_provider_listeners_mono:
  "set (d_now s) \<subseteq> set (d_now (run_provider_listeners rs pev s)) \<and>
   set (d_later s) \<subseteq> set (d_later (run_provider_listeners rs pev s))"
proof (induction rs arbitrary: s)
  case Nil
  show ?case by simp
next
  case (Cons r rs)
  show ?case
  proof (cases "d_stopped s")
    case True
    then show ?thesis by simp
  next
    case False
    with Cons [of "provider_step r pev s"] provider_step_mono [of s r pev]
    show ?thesis by auto
  qed
qed


subsection \<open>Requests with and without a provider\<close>

lemma no_provider_subset:
  "no_provider c rs \<Longrightarrow> set rs' \<subseteq> set rs \<Longrightarrow> no_provider c rs'"
  by (auto simp: no_provider_def list_all_iff)

lemma only_provider_subset:
  "only_provider l c rs \<Longrightarrow> set rs' \<subseteq> set rs \<Longrightarrow> only_provider l c rs'"
  by (auto simp: only_provider_def list_all_iff)

lemma no_provider_only_provider:
  "no_provider c rs \<Longrightarrow> r_listener r = ContextListener c hv sp \<Longrightarrow>
   only_provider (ContextListener c hv sp) c (rs @ [r])"
  by (auto simp: no_provider_def only_provider_def list_all_iff split: listener.splits)

lemma invoke_request_other:
  assumes "case l of ContextListener c' hv sp \<Rightarrow> c' \<noteq> ctx ev | _ \<Rightarrow> True"
  shows "fst (invoke_request l ev w) = quiet"
  using assms by (cases l) (simp_all add: invoke_request_def contextListener_def quiet_def)

lemma request_step_other:
  assumes "case r_listener r of ContextListener c' hv sp \<Rightarrow> c' \<noteq> ctx ev | _ \<Rightarrow> True"
  shows "d_now (request_step r ev s) = d_now s \<and> d_later (request_step r ev s) = d_later s \<and>
         d_stopped (request_step r ev s) = d_stopped s"
  using invoke_request_other [OF assms] by (simp add: request_step_def Let_def quiet_def)

lemma unanswered_request:
  assumes "no_provider (ctx ev) rs"
  shows "d_now (run_request_listeners rs ev s) = d_now s \<and>
         d_later (run_request_listeners rs ev s) = d_later s \<and>
         d_stopped (run_request_listeners rs ev s) = d_stopped s"
  using assms
proof (induction rs arbitrary: s)
  case Nil
  show ?case by simp
next
  case (Cons r rs)
  from Cons.prems have r: "case r_listener r of ContextListener c' hv sp \<Rightarrow> c' \<noteq> ctx ev | _ \<Rightarrow> True"
    and rs: "no_provider (ctx ev) rs"
    by (simp_all add: no_provider_def)
  show ?case
  proof (cases "d_stopped s")
    case True
    then show ?thesis by simp
  next
    case False
    with Cons.IH [OF rs, of "request_step r ev s"] request_step_other [OF r, of s]
    show ?thesis by simp
  qed
qed

lemma pending_request_step:
  "set (pending (d_world s)) \<subseteq> set (pending (d_world (request_step r ev s)))"
  by (cases "r_listener r") (auto simp: request_step_def invoke_request_def onContextRequest_def Let_def)

lemma pending_run_request_listeners:
  "set (pending (d_world s)) \<subseteq> set (pending (d_world (run_request_listeners rs ev s)))"
proof (induction rs arbitrary: s)
  case Nil
  show ?case by simp
next
  case (Cons r rs)
  show ?case
  proof (cases "d_stopped s")
    case True
    then show ?thesis by simp
  next
    case False
    with Cons [of "request_step r ev s"] pending_request_step [of s r ev]
    show ?thesis by auto
  qed
qed

lemma request_buffered:
  assumes "no_provider (ctx ev) rs" and "r \<in> set rs" and "r_listener r = RootOnRequest"
    and "\<not> d_stopped s"
  shows "record_of ev \<in> set (pending (d_world (run_request_listeners rs ev s)))"
  using assms
proof (induction rs arbitrary: s)
  case Nil
  then show ?case by simp
next
  case (Cons x rs)
  from Cons.prems have x: "case r_listener x of ContextListener c' hv sp \<Rightarrow> c' \<noteq> ctx ev | _ \<Rightarrow> True"
    and rs: "no_provider (ctx ev) rs"
    by (simp_all add: no_provider_def)
  from request_step_other [OF x, of s] Cons.prems
  have ns: "\<not> d_stopped (request_step x ev s)" by simp
  show ?case
  proof (cases "x = r")
    case True
    with Cons.prems have "record_of ev \<in> set (pending (d_world (request_step x ev s)))"
      by (simp add: request_step_def invoke_request_def onContextRequest_def Let_def)
    with pending_run_request_listeners [of "request_step x ev s" rs ev] Cons.prems
    show ?thesis by auto
  next
    case False
    with Cons.prems have "r \<in> set rs" by simp
    from Cons.IH [OF rs this Cons.prems(3) ns] Cons.prems show ?thesis by simp
  qed
qed

lemma provider_reached:
  assumes "only_provider (ContextListener c hv sp) c rs" and "ctx ev = c"
    and "r \<in> set rs" and "r_listener r = ContextListener c hv sp" and "\<not> d_stopped s"
  shows "set (immediate (contextListener c hv sp ev)) \<subseteq> set (d_now (run_request_listeners rs ev s)) \<and>
         set (deferred (contextListener c hv sp ev)) \<subseteq> set (d_later (run_request_listeners rs ev s))"
  using assms
proof (induction rs arbitrary: s)
  case Nil
  then show ?case by simp
next
  case (Cons x rs)
  from Cons.prems have rs: "only_provider (ContextListener c hv sp) c rs"
    by (simp add: only_provider_def)
  show ?case
  proof (cases "r_listener x = ContextListener c hv sp")
    case True
    then have "set (immediate (contextListener c hv sp ev)) \<subseteq> set (d_now (request_step x ev s)) \<and>
               set (deferred (contextListener c hv sp ev)) \<subseteq> set (d_later (request_step x ev s))"
      by (simp add: request_step_def invoke_request_def Let_def)
    with run_request_listeners_mono [of "request_step x ev s" rs ev] Cons.prems
    show ?thesis by auto
  next
    case False
    with Cons.prems have other: "case r_listener x of ContextListener c' hv sp \<Rightarrow> c' \<noteq> ctx ev | _ \<Rightarrow> True"
      by (auto simp: only_provider_def split: listener.splits)
    from request_step_other [OF other, of s] Cons.prems
    have ns: "\<not> d_stopped (request_step x ev s)" by simp
    from False Cons.prems have "r \<in> set rs" by auto
    from Cons.IH [OF rs Cons.prems(2) this Cons.prems(4) ns] Cons.prems show ?thesis by simp
  qed
qed

lemma dispatch_request_answered:
  assumes "only_provider (ContextListener c hv sp) c (registrations w)" and "ctx ev = c"
    and "r \<in> set (registrations w)" and "r_listener r = ContextListener c hv sp"
    and "r_type r = event_type ev" and "bubbles ev"
    and "r_node r \<in> set (event_path (links w) (composed ev) tgt)"
  shows "set (immediate (contextListener c hv sp ev)) \<subseteq> set (d_now (dispatch_request tgt ev w)) \<and>
         set (deferred (contextListener c hv sp ev)) \<subseteq> set (d_later (dispatch_request tgt ev w))"
proof -
  have "only_provider (ContextListener c hv sp) c (invocation_order w ev tgt)"
    using assms(1) invocation_order_subset by (rule only_provider_subset)
  moreover have "r \<in> set (invocation_order w ev tgt)"
    using assms(3,5,7,6) by (rule invocation_order_member)
  ultimately show ?thesis
    using provider_reached [of c hv sp "invocation_order w ev tgt" ev r "start w"] assms(2,4)
    by (simp add: dispatch_request_def start_def)
qed


subsection \<open>Announcements\<close>




lemma installed_keeps: "installed p c hv sp w \<Longrightarrow> keeps w w' \<Longrightarrow> installed p c hv sp w'"
  by (auto simp: installed_def keeps_def intro: only_provider_subset)

lemma fresh_request_fields [simp]:
  "ctx (fresh_request rc) = rr_context rc"
  "callback (fresh_request rc) = rr_deliver rc"
  "event_type (fresh_request rc) = ''context-request''"
  "bubbles (fresh_request rc)" "composed (fresh_request rc)"
  by (simp_all add: fresh_request_def new_ContextRequestEvent_def)

lemma installed_answers:
  assumes "installed p c hv sp w" and "ctx ev = c" and "event_type ev = ''context-request''"
    and "bubbles ev" and "r_node p \<in> set (event_path (links w) (composed ev) tgt)"
  shows "set (immediate (contextListener c hv sp ev)) \<subseteq> set (d_now (dispatch_request tgt ev w)) \<and>
         set (deferred (contextListener c hv sp ev)) \<subseteq> set (d_later (dispatch_request tgt ev w))"
  using assms dispatch_request_answered [of c hv sp w ev p tgt]
  by (simp add: installed_def)

lemma replay_delivers:
  assumes "installed p c hv sp (d_world s)"
    and "r_node p \<in> set (event_path (links (d_world s)) True at)"
    and "rc \<in> set rcs" and "rr_context rc = c"
  shows "set (immediate (contextListener c hv sp (fresh_request rc))) \<subseteq> set (d_now (replay at rcs s)) \<and>
         set (deferred (contextListener c hv sp (fresh_request rc))) \<subseteq> set (d_later (replay at rcs s))"
  using assms
proof (induction rcs arbitrary: s)
  case Nil
  then show ?case by simp
next
  case (Cons x rcs)
  have k: "keeps (d_world s) (d_world (replay_step at x s))" by (rule keeps_replay_step)
  show ?case
  proof (cases "x = rc")
    case True
    from installed_answers [OF Cons.prems(1), of "fresh_request rc" at] Cons.prems(2,4)
    have "set (immediate (contextListener c hv sp (fresh_request rc)))
            \<subseteq> set (d_now (dispatch_request at (fresh_request rc) (d_world s))) \<and>
          set (deferred (contextListener c hv sp (fresh_request rc)))
            \<subseteq> set (d_later (dispatch_request at (fresh_request rc) (d_world s)))"
      by simp
    then have "set (immediate (contextListener c hv sp (fresh_request rc)))
                 \<subseteq> set (d_now (replay_step at x s)) \<and>
               set (deferred (contextListener c hv sp (fresh_request rc)))
                 \<subseteq> set (d_later (replay_step at x s))"
      using True by (auto simp: replay_step_def Let_def)
    with replay_mono [of "replay_step at x s" at rcs] show ?thesis by auto
  next
    case False
    with Cons.prems have "rc \<in> set rcs" by simp
    moreover from k have "links (d_world (replay_step at x s)) = links (d_world s)"
      by (simp add: keeps_def)
    ultimately show ?thesis
      using Cons.IH [OF installed_keeps [OF Cons.prems(1) k]] Cons.prems(2,4) by simp
  qed
qed

lemma announcement_replays:
  assumes "installed p c hv sp (d_world s)"
    and "r_node p \<in> set (event_path (links (d_world s)) True (p_contextTarget pev))"
    and "rc \<in> set (pending (d_world s))" and "rr_context rc = c" and "p_ctx pev = c"
    and "x \<in> set rs" and "r_listener x = RootOnProvider" and "\<not> d_stopped s"
  shows "set (immediate (contextListener c hv sp (fresh_request rc)))
           \<subseteq> set (d_now (run_provider_listeners rs pev s)) \<and>
         set (deferred (contextListener c hv sp (fresh_request rc)))
           \<subseteq> set (d_later (run_provider_listeners rs pev s))"
  using assms
proof (induction rs arbitrary: s)
  case Nil
  then show ?case by simp
next
  case (Cons y rs)
  let ?s' = "s\<lparr>d_world := drop_if_once y (d_world s)\<rparr>"
  have k: "keeps (d_world s) (d_world ?s')" by (simp add: keeps_drop_if_once)
  then have lk: "links (d_world ?s') = links (d_world s)" by (simp add: keeps_def)
  have inst: "installed p c hv sp (d_world ?s')"
    by (rule installed_keeps [OF Cons.prems(1) k])
  show ?case
  proof (cases "r_listener y = RootOnProvider")
    case True
    have "rc \<in> set (filter (\<lambda>rc. rr_context rc = p_ctx pev) (pending (d_world ?s')))"
      using Cons.prems(3,4,5) by simp
    from replay_delivers [OF inst _ this Cons.prems(4), of "p_contextTarget pev"] Cons.prems(2) lk
    have "set (immediate (contextListener c hv sp (fresh_request rc)))
            \<subseteq> set (d_now (provider_step y pev s)) \<and>
          set (deferred (contextListener c hv sp (fresh_request rc)))
            \<subseteq> set (d_later (provider_step y pev s))"
      using True by (simp add: provider_step_def onContextProvider_def Let_def)
    with run_provider_listeners_mono [of "provider_step y pev s" rs pev] Cons.prems(8)
    show ?thesis by auto
  next
    case False
    then have step: "provider_step y pev s = ?s'"
      by (cases "r_listener y") (simp_all add: provider_step_def Let_def)
    from False Cons.prems have "x \<in> set rs" by auto
    from Cons.IH [OF _ _ _ Cons.prems(4,5) this Cons.prems(7), of ?s'] inst lk Cons.prems(2,3,8) step
    show ?thesis by simp
  qed
qed

subsection \<open>Reading runs\<close>

lemma callbacks_append [simp]: "callbacks (xs @ ys) = callbacks xs @ callbacks ys"
  by (simp add: callbacks_def)

lemma callbacks_Nil [simp]: "callbacks [] = []"
  by (simp add: callbacks_def)

lemma callbacks_member: "(cb, v) \<in> set (callbacks as) \<longleftrightarrow> InvokeCallback cb v \<in> set as"
  by (induction as) (auto simp: callbacks_def split: action.splits)

lemma callbacks_stop [simp]:
  "callbacks (if sp then [StopImmediatePropagation] else []) = []"
  by (simp add: callbacks_def)

lemma static_run:
  "callbacks (immediate (contextListener c (Static v) sp ev)) =
     (if ctx ev = c \<and> v \<noteq> Undefined then [(callback ev, v)] else [])"
  "callbacks (deferred (contextListener c (Static v) sp ev)) = []"
  by (auto simp: contextListener_def try_block_def Let_def deliver_def callbacks_def
      split: completion.splits option.splits)

lemma handler_run:
  "callbacks (immediate (contextListener c (Handler h) sp ev)) = []"
  "callbacks (deferred (contextListener c (Handler h) sp ev)) =
     (if ctx ev = c then
        (case h ev of Resolves v \<Rightarrow> if v = Undefined then [] else [(callback ev, v)]
                    | Returns v \<Rightarrow> if v = Undefined then [] else [(callback ev, v)]
                    | _ \<Rightarrow> [])
      else [])"
  by (auto simp: contextListener_def try_block_def Let_def deliver_def callbacks_def
      split: completion.splits option.splits handler_result.splits)

lemma stops_run: "stops (immediate (contextListener c hv sp ev)) \<longleftrightarrow> ctx ev = c \<and> sp"
  by (cases hv)
    (auto simp: contextListener_def try_block_def Let_def stops_def deliver_def
      split: completion.splits option.splits handler_result.splits)



lemma provides_delivers:
  assumes "provides hv ev v" and "v \<noteq> Undefined" and "ctx ev = c"
  shows "(callback ev, v) \<in> set (callbacks (immediate (contextListener c hv sp ev)) @
                                  callbacks (deferred (contextListener c hv sp ev)))"
proof (cases hv)
  case (Static v')
  with assms show ?thesis by (simp add: static_run provides_def)
next
  case (Handler h)
  with assms show ?thesis by (auto simp: handler_run provides_def)
qed

lemma subset_callbacks:
  "set as \<subseteq> set bs \<Longrightarrow> set (callbacks as) \<subseteq> set (callbacks bs)"
  using callbacks_member by fastforce

lemma register_unfold:
  "register c hv options w =
     (let t = nullish_coalesce (target options) (document_body w);
          w' = addEventListener (getRootNode (links w) t) ''context-request''
                 (ContextListener c hv (nullish_coalesce (stopPropagation options) True))
                 (AddEventListenerOptions.truncate options) w;
          d = dispatch_provider t (new_ContextProviderEvent c t) w'
      in \<lparr>d_world = d_world d, d_now = d_now d, d_later = d_later d, d_stopped = False\<rparr>)"
  by (simp add: register_def registerContextProvider_def exec_def dispatchEvent_def Let_def start_def)

lemma truncate_fields [simp]:
  "signal_aborted (AddEventListenerOptions.truncate options) = signal_aborted options"
  "capture (AddEventListenerOptions.truncate options) = capture options"
  "once (AddEventListenerOptions.truncate options) = once options"
  by (simp_all add: signal_aborted_def AddEventListenerOptions.truncate_def)

text \<open>The world in which a registration dispatches its announcement.\<close>

lemma registered_world:
  fixes c :: Context and hv :: provided and options :: ProviderOptions and w :: world
  assumes "no_provider c (registrations w)" and "\<not> signal_aborted options" and "\<not> flag (once options)"
  defines "t \<equiv> nullish_coalesce (target options) (document_body w)"
  defines "sp \<equiv> nullish_coalesce (stopPropagation options) True"
  defines "p \<equiv> \<lparr>r_node = getRootNode (links w) t, r_type = ''context-request'',
                 r_listener = ContextListener c hv sp,
                 r_capture = flag (capture options), r_once = False\<rparr>"
  defines "w' \<equiv> addEventListener (getRootNode (links w) t) ''context-request''
                 (ContextListener c hv sp) (AddEventListenerOptions.truncate options) w"
  shows "installed p c hv sp w'" and "links w' = links w" and "pending w' = pending w"
    and "set (registrations w) \<subseteq> set (registrations w')"
proof -
  have w': "w' = w\<lparr>registrations := registrations w @ [p]\<rparr>"
    using assms(2,3) by (simp add: w'_def p_def addEventListener_def)
  have "only_provider (ContextListener c hv sp) c (registrations w @ [p])"
    using assms(1) by (rule no_provider_only_provider) (simp add: p_def)
  then show "installed p c hv sp w'" by (simp add: installed_def w') (simp add: p_def)
  show "pending w' = pending w" by (simp add: w')
  show "set (registrations w) \<subseteq> set (registrations w')" by (auto simp: w')
  show "links w' = links w" by (simp add: w')
qed



lemma new_request_roundtrip:
  "fresh_request (record_of (new_ContextRequestEvent c n cb sub)) =
     new_ContextRequestEvent c n cb (Some (nullish_coalesce sub False))"
  by (simp add: fresh_request_def record_of_def new_ContextRequestEvent_def nullish_coalesce_def)


section \<open>The event constructors\<close>

text \<open>
  C7. Every \<open>ContextRequestEvent\<close> and every \<open>ContextProviderEvent\<close> is constructed with
  \<open>bubbles = true\<close> and \<open>composed = true\<close>, whatever the arguments of the constructor.
\<close>

theorem events_bubble_and_are_composed:
  "bubbles (new_ContextRequestEvent c n cb sub) \<and>
   composed (new_ContextRequestEvent c n cb sub) \<and>
   bubbles (new_ContextProviderEvent c n) \<and>
   composed (new_ContextProviderEvent c n)"
  by (simp add: new_ContextRequestEvent_def new_ContextProviderEvent_def)

text \<open>
  C9. A \<open>ContextRequestEvent\<close> constructed without a \<open>subscribe\<close> argument, or with
  \<open>undefined\<close> for it, has \<open>subscribe = false\<close>: the field is a boolean in every case, and
  an argument that is given is kept.
\<close>

theorem subscribe_defaults_to_false:
  "subscribe (new_ContextRequestEvent c n cb None) = False \<and>
   subscribe (new_ContextRequestEvent c n cb (Some b)) = b"
  by (simp add: new_ContextRequestEvent_def nullish_coalesce_def)

section \<open>The module guard\<close>




section \<open>The provider's listener\<close>

text \<open>
  C6. A request event whose context is not the registered one is left untouched by the
  listener: nothing is stopped and no callback is called. The listener calls a callback
  or stops the event only for an event whose context equals the registered one, and a
  string never equals a symbol of the same spelling, whichever of the two was
  registered.
\<close>

theorem contextListener_strict_match:
  "(ctx ev \<noteq> c \<longrightarrow> contextListener c hv sp ev = quiet) \<and>
   ((cb, v) \<in> set (callbacks (immediate (contextListener c hv sp ev) @
                               deferred (contextListener c hv sp ev))) \<longrightarrow> ctx ev = c) \<and>
   (stops (immediate (contextListener c hv sp ev)) \<longrightarrow> ctx ev = c) \<and>
   (ctx ev = CSymbol i s \<longrightarrow> contextListener (CString s) hv sp ev = quiet) \<and>
   (ctx ev = CString s \<longrightarrow> contextListener (CSymbol i s) hv sp ev = quiet)"
  by (auto simp: contextListener_def quiet_def callbacks_def stops_def)

theorem contextListener_strict_match_witness:
  "ctx (new_ContextRequestEvent (CSymbol 0 ''theme'') 3 consumer None) \<noteq> theme \<and>
   contextListener theme (Static (Value 42)) True
     (new_ContextRequestEvent (CSymbol 0 ''theme'') 3 consumer None) = quiet \<and>
   contextListener (CSymbol 0 ''theme'') (Static (Value 42)) True
     (new_ContextRequestEvent theme 3 consumer None) = quiet \<and>
   (consumer, Value 42) \<in> set (callbacks
      (immediate (contextListener theme (Static (Value 42)) True
                    (new_ContextRequestEvent theme 3 consumer None)) @
       deferred (contextListener theme (Static (Value 42)) True
                    (new_ContextRequestEvent theme 3 consumer None)))) \<and>
   stops (immediate (contextListener theme (Static (Value 42)) True
                       (new_ContextRequestEvent theme 3 consumer None))) \<and>
   ctx (new_ContextRequestEvent theme 3 consumer None) = theme"
  using
    contextListener_strict_match
      [of "new_ContextRequestEvent (CSymbol 0 ''theme'') 3 consumer None" theme
          "Static (Value 42)" True consumer "Value 42" 0 "''theme''"]
    contextListener_strict_match
      [of "new_ContextRequestEvent theme 3 consumer None" "CSymbol 0 ''theme''"
          "Static (Value 42)" True consumer "Value 42" 0 "''theme''"]
    contextListener_strict_match
      [of "new_ContextRequestEvent theme 3 consumer None" theme
          "Static (Value 42)" True consumer "Value 42" 0 "''theme''"]
  by (simp add: theme_def consumer_def event_defs listener_defs quiet_def callbacks_def
      stops_def)




text \<open>
  C3. When the handler of a registered provider throws, or returns a promise that is
  rejected, on a matching request, the listener recovers the error itself: it writes one
  line to the console, naming the context, and the promise of the listener is fulfilled,
  so nothing is thrown on to the dispatcher; the callback of the request is not called.
  No run of the listener, whatever the provider and the event, ends in a rejection.
\<close>

theorem handler_error_recovered:
  assumes "ctx ev = c" and "h ev = Throws e \<or> h ev = Rejects e"
  shows "outcome (contextListener c (Handler h) sp ev) = Fulfilled \<and>
         logged (immediate (contextListener c (Handler h) sp ev) @
                 deferred (contextListener c (Handler h) sp ev))
           = [ConsoleError (error_message c) e] \<and>
         callbacks (immediate (contextListener c (Handler h) sp ev) @
                    deferred (contextListener c (Handler h) sp ev)) = [] \<and>
         (\<forall>hv' ev' e'. outcome (contextListener c hv' sp ev') \<noteq> Rejected e')"
proof -
  have "outcome (contextListener c hv' sp ev') \<noteq> Rejected e'" for hv' ev' e'
    by (auto simp: contextListener_def try_block_def Let_def
        split: completion.splits provided.splits handler_result.splits)
  moreover from assms
  have "outcome (contextListener c (Handler h) sp ev) = Fulfilled \<and>
        logged (immediate (contextListener c (Handler h) sp ev) @
                deferred (contextListener c (Handler h) sp ev))
          = [ConsoleError (error_message c) e]"
    by (auto simp: contextListener_def try_block_def Let_def logged_def)
  moreover from assms
  have "callbacks (immediate (contextListener c (Handler h) sp ev) @
                   deferred (contextListener c (Handler h) sp ev)) = []"
    by (auto simp: handler_run)
  ultimately show ?thesis by blast
qed

theorem handler_error_recovered_witness:
  "ctx (new_ContextRequestEvent theme 3 consumer None) = theme \<and>
   failing (new_ContextRequestEvent theme 3 consumer None) = Rejects ''boom'' \<and>
   throwing (new_ContextRequestEvent theme 3 consumer None) = Throws ''boom'' \<and>
   outcome (contextListener theme (Handler failing) True
              (new_ContextRequestEvent theme 3 consumer None)) = Fulfilled \<and>
   deferred (contextListener theme (Handler failing) True
              (new_ContextRequestEvent theme 3 consumer None))
     = [Log (ConsoleError (error_message theme) ''boom'')] \<and>
   immediate (contextListener theme (Handler throwing) True
              (new_ContextRequestEvent theme 3 consumer None))
     = [StopImmediatePropagation, InvokeHandler,
        Log (ConsoleError (error_message theme) ''boom'')] \<and>
   callbacks (immediate (contextListener theme (Handler throwing) True
                (new_ContextRequestEvent theme 3 consumer None)) @
              deferred (contextListener theme (Handler throwing) True
                (new_ContextRequestEvent theme 3 consumer None))) = []"
  using
    handler_error_recovered
      [of "new_ContextRequestEvent theme 3 consumer None" theme failing "''boom''" True]
    handler_error_recovered
      [of "new_ContextRequestEvent theme 3 consumer None" theme throwing "''boom''" True]
  by (simp add: theme_def failing_def throwing_def event_defs listener_defs)

section \<open>Registration and dispatch\<close>








section \<open>Late resolution\<close>

text \<open>
  C1, as the claim states it, fails. The resolution buffer is attached to the body and
  holds a subscribing request, made when no provider existed. A provider registered with
  a signal that has aborted already gets no listener, yet its announcement is dispatched:
  the buffer replays the request to nobody, and no callback is called, then or later.
  And with two subscribing requests waiting, a provider registered as a once-listener
  answers the replay of the first and is gone: the second requester is never answered.
  Nor is anything delivered when the provider's value is \<open>undefined\<close>, or when no
  resolution buffer was attached to hold the request.
\<close>

theorem announcement_without_listener:
  "attached 1 waiting \<and>
   pending waiting = [record_of (new_ContextRequestEvent theme 3 consumer (Some True))] \<and>
   provider_dispatches (fst (registerContextProvider waiting theme (Static (Value 42))
                                aborted_options))
     = [(1, new_ContextProviderEvent theme 1)] \<and>
   callbacks (d_now (register theme (Static (Value 42)) aborted_options waiting)) = [] \<and>
   callbacks (d_later (register theme (Static (Value 42)) aborted_options waiting)) = [] \<and>
   pending waiting_two = [record_of (new_ContextRequestEvent theme 3 consumer (Some True)),
                          record_of (new_ContextRequestEvent theme 2 consumer2 (Some True))] \<and>
   callbacks (d_now (register theme (Static (Value 42)) once_options waiting_two))
     = [(consumer, Value 42)] \<and>
   callbacks (d_later (register theme (Static (Value 42)) once_options waiting_two)) = [] \<and>
   callbacks (d_now (register theme (Static Undefined) no_options waiting)) = [] \<and>
   callbacks (d_later (register theme (Static Undefined) no_options waiting)) = [] \<and>
   callbacks (d_now (register theme (Static (Value 42)) no_options unattended)) = [] \<and>
   callbacks (d_later (register theme (Static (Value 42)) no_options unattended)) = []"
  by (simp add: waiting_two_def waiting_def unattended_def host_defs page_defs event_defs
      listener_defs callbacks_def provider_dispatches_def)

text \<open>
  C1, amended. Let the resolution buffer be attached at a node that lies on the
  propagation path of the requester and of the provider's target, and let no provider of
  context \<open>c\<close> be registered. A subscribing request for \<open>c\<close> is then answered by nobody: no
  callback is called, and the buffer holds its record. When a provider of \<open>c\<close> that comes
  up with a value other than \<open>undefined\<close> is registered afterwards, with a signal that
  has not aborted and not as a once-listener, its announcement makes the buffer replay
  the request, and the requester's callback is called with the provider's value: inside
  the registration for a static value, later for a handler whose result settles to the
  value. The requester was there first, and only the announcement had to come after the
  request.
\<close>

theorem late_resolution:
  fixes c :: Context and hv :: provided and options :: ProviderOptions and w :: world
    and n :: node and cb :: ContextCallback
  defines "t \<equiv> nullish_coalesce (target options) (document_body w)"
  defines "request \<equiv> new_ContextRequestEvent c n cb (Some True)"
  defines "w1 \<equiv> d_world (dispatch_request n request w)"
  assumes att: "attached root w"
    and nop: "no_provider c (registrations w)"
    and sees_request: "root \<in> set (event_path (links w) True n)"
    and sees_announcement: "root \<in> set (event_path (links w) True t)"
    and live: "\<not> signal_aborted options" "\<not> flag (once options)"
    and val: "provides hv request v" "v \<noteq> Undefined"
  shows "callbacks (d_now (dispatch_request n request w)) = [] \<and>
         callbacks (d_later (dispatch_request n request w)) = [] \<and>
         record_of request \<in> set (pending w1) \<and>
         (cb, v) \<in> set (callbacks (d_now (register c hv options w1) @
                                   d_later (register c hv options w1))) \<and>
         (\<forall>v'. hv = Static v' \<longrightarrow>
            (cb, v) \<in> set (callbacks (d_now (register c hv options w1)))) \<and>
         (\<forall>h. hv = Handler h \<longrightarrow>
            (cb, v) \<in> set (callbacks (d_later (register c hv options w1))))"
proof -
  let ?rq = "root_registration root ''context-request'' RootOnRequest"
  let ?rp = "root_registration root ''context-provider'' RootOnProvider"
  have ev: "ctx request = c" "event_type request = ''context-request''" "bubbles request"
    "composed request" "callback request = cb"
    by (simp_all add: request_def new_ContextRequestEvent_def)
  have rq: "?rq \<in> set (registrations w)" and rp: "?rp \<in> set (registrations w)"
    using att by (simp_all add: attached_def)
  \<comment> \<open>the request finds no provider and is buffered\<close>
  have nop_order: "no_provider (ctx request) (invocation_order w request n)"
    using no_provider_subset [OF nop invocation_order_subset, of request n] ev(1) by simp
  from unanswered_request [OF this, of "start w"]
  have quiet1: "d_now (dispatch_request n request w) = []"
    "d_later (dispatch_request n request w) = []"
    by (simp_all add: dispatch_request_def start_def)
  have "?rq \<in> set (invocation_order w request n)"
    using rq sees_request ev by (intro invocation_order_member) (simp_all add: root_registration_def)
  from request_buffered [OF nop_order this, of "start w"]
  have buffered: "record_of request \<in> set (pending w1)"
    by (simp add: w1_def dispatch_request_def root_registration_def start_def)
  \<comment> \<open>the world after the request\<close>
  have k1: "keeps w w1" unfolding w1_def by (rule keeps_dispatch_request)
  then have lk1: "links w1 = links w" and body1: "document_body w1 = document_body w"
    and sub1: "set (registrations w1) \<subseteq> set (registrations w)"
    by (simp_all add: keeps_def)
  have rp1: "?rp \<in> set (registrations w1)"
    using k1 rp by (simp add: keeps_def root_registration_def)
  have nop1: "no_provider c (registrations w1)"
    using nop sub1 by (rule no_provider_subset)
  \<comment> \<open>the provider registers\<close>
  let ?sp = "nullish_coalesce (stopPropagation options) True"
  let ?p = "\<lparr>r_node = getRootNode (links w1) t, r_type = ''context-request'',
             r_listener = ContextListener c hv ?sp,
             r_capture = flag (capture options), r_once = False\<rparr>"
  let ?w' = "addEventListener (getRootNode (links w1) t) ''context-request''
               (ContextListener c hv ?sp) (AddEventListenerOptions.truncate options) w1"
  let ?pev = "new_ContextProviderEvent c t"
  have t1: "nullish_coalesce (target options) (document_body w1) = t"
    by (simp add: t_def body1)
  have inst: "installed ?p c hv ?sp ?w'" and lk': "links ?w' = links w1"
    and pend': "pending ?w' = pending w1"
    and regs': "set (registrations w1) \<subseteq> set (registrations ?w')"
    using registered_world [OF nop1 live, of hv] by (simp_all add: t1)
  have pev: "event_type ?pev = ''context-provider''" "bubbles ?pev" "composed ?pev"
    "p_ctx ?pev = c" "p_contextTarget ?pev = t"
    by (simp_all add: new_ContextProviderEvent_def)
  have "?rp \<in> set (invocation_order ?w' ?pev t)"
    using rp1 regs' sees_announcement pev lk' lk1
    by (intro invocation_order_member) (auto simp: root_registration_def)
  moreover have "r_node ?p \<in> set (event_path (links (d_world (start ?w'))) True (p_contextTarget ?pev))"
    using getRootNode_on_path [of "links w1" t True] by (simp add: start_def lk' pev)
  moreover have "installed ?p c hv ?sp (d_world (start ?w'))"
    using inst by (simp add: start_def)
  moreover have "record_of request \<in> set (pending (d_world (start ?w')))"
    using buffered pend' by (simp add: start_def)
  moreover have "rr_context (record_of request) = c"
    by (simp add: record_of_def ev)
  ultimately have
    "set (immediate (contextListener c hv ?sp (fresh_request (record_of request))))
       \<subseteq> set (d_now (dispatch_provider t ?pev ?w')) \<and>
     set (deferred (contextListener c hv ?sp (fresh_request (record_of request))))
       \<subseteq> set (d_later (dispatch_provider t ?pev ?w'))"
    using announcement_replays [of ?p c hv ?sp "start ?w'" ?pev "record_of request" ?rp
        "invocation_order ?w' ?pev t"] pev
    by (simp add: dispatch_provider_def root_registration_def start_def)
  moreover have "fresh_request (record_of request) = request"
    by (simp add: request_def new_request_roundtrip nullish_coalesce_def)
  ultimately have sub_now: "set (callbacks (immediate (contextListener c hv ?sp request)))
          \<subseteq> set (callbacks (d_now (register c hv options w1)))"
    and sub_later: "set (callbacks (deferred (contextListener c hv ?sp request)))
          \<subseteq> set (callbacks (d_later (register c hv options w1)))"
    by (simp_all add: subset_callbacks register_unfold Let_def t1)
  with provides_delivers [OF val ev(1), of ?sp] ev(5)
  have eventually: "(cb, v) \<in> set (callbacks (d_now (register c hv options w1) @
                                   d_later (register c hv options w1)))"
    by auto
  have now: "(cb, v) \<in> set (callbacks (d_now (register c hv options w1)))"
    if "hv = Static v'" for v'
  proof -
    from that val have "callbacks (immediate (contextListener c hv ?sp request)) = [(cb, v)]"
      by (simp add: static_run provides_def ev)
    with sub_now show ?thesis by simp
  qed
  have later: "(cb, v) \<in> set (callbacks (d_later (register c hv options w1)))"
    if "hv = Handler h" for h
  proof -
    from that val have "h request = Resolves v \<or> h request = Returns v"
      by (simp add: provides_def)
    with that val have "callbacks (deferred (contextListener c hv ?sp request)) = [(cb, v)]"
      by (auto simp: handler_run ev)
    with sub_later show ?thesis by simp
  qed
  from quiet1 have "callbacks (d_now (dispatch_request n request w)) = []"
    and "callbacks (d_later (dispatch_request n request w)) = []"
    by simp_all
  with buffered eventually now later show ?thesis by blast
qed

theorem late_resolution_witness:
  "attached 1 (attach 1 page) \<and>
   no_provider theme (registrations (attach 1 page)) \<and>
   1 \<in> set (event_path (links (attach 1 page)) True 3) \<and>
   1 \<in> set (event_path (links (attach 1 page)) True
              (nullish_coalesce (target no_options) (document_body (attach 1 page)))) \<and>
   \<not> signal_aborted no_options \<and> \<not> flag (once no_options) \<and>
   provides (Handler fetching) (new_ContextRequestEvent theme 3 consumer (Some True)) (Value 42) \<and>
   Value 42 \<noteq> Undefined \<and>
   callbacks (d_now (dispatch_request 3 (new_ContextRequestEvent theme 3 consumer (Some True))
                       (attach 1 page))) = [] \<and>
   (consumer, Value 42) \<in> set (callbacks
      (d_later (register theme (Handler fetching) no_options
                (d_world (dispatch_request 3 (new_ContextRequestEvent theme 3 consumer (Some True))
                            (attach 1 page)))))) \<and>
   (consumer, Value 42) \<in> set (callbacks
      (d_now (register theme (Handler fetching) no_options
                (d_world (dispatch_request 3 (new_ContextRequestEvent theme 3 consumer (Some True))
                            (attach 1 page)))) @
       d_later (register theme (Handler fetching) no_options
                (d_world (dispatch_request 3 (new_ContextRequestEvent theme 3 consumer (Some True))
                            (attach 1 page))))))"
  using late_resolution
      [where root = 1 and w = "attach 1 page" and c = theme and n = 3 and cb = consumer
         and options = no_options and hv = "Handler fetching" and v = "Value 42"]
  by (simp add: no_provider_def provides_def fetching_def page_def page_links_def
      no_options_def signal_aborted_def flag_def nullish_coalesce_def attach_def attached_def
      root_registration_def event_path.simps)

end
